theory Spec2Isabelle
  imports Main
begin

section \<open>The sequence compiler of \<^verbatim>\<open>process_control.cpp\<close>\<close>

subsection \<open>Character classes of the two regular expressions\<close>

text \<open>
  The regular expressions are built in the default (classic) locale, where \<^verbatim>\<open>\s\<close> is
  \<^verbatim>\<open>isspace\<close> (space, \<^verbatim>\<open>\t \n \v \f \r\<close>) and \<^verbatim>\<open>\d\<close> is one of the ten ASCII digits.
\<close>

definition isspace :: "char \<Rightarrow> bool" where
  "isspace c = (c \<in> set [CHR 0x20, CHR 0x09, CHR 0x0A, CHR 0x0B, CHR 0x0C, CHR 0x0D])"

definition isdigit :: "char \<Rightarrow> bool" where
  "isdigit c = (c \<in> set ''0123456789'')"

subsection \<open>Matching a whole line\<close>

text \<open>
  \<^verbatim>\<open>std::regex_match(line, m, re)\<close> with \<^verbatim>\<open>^\s*loop(\d+)_(\d+)\s*$\<close> accepts the line when
  the whole of it is: white space, the letters \<^verbatim>\<open>loop\<close>, one or more digits (group 1), an
  underscore, one or more digits (group 2), white space.  White space, digits and the
  underscore are disjoint classes, so the match is found by one left-to-right scan; the
  result is the pair of captured groups.
\<close>

definition match_loop_start :: "string \<Rightarrow> (string \<times> string) option" where
  "match_loop_start line =
     (let s1 = dropWhile isspace line in
      if take 4 s1 = ''loop'' then
        (let s2 = drop 4 s1; g1 = takeWhile isdigit s2; s3 = dropWhile isdigit s2 in
         if g1 = [] then None
         else (case s3 of
                 [] \<Rightarrow> None
               | c # s4 \<Rightarrow>
                   if c = CHR ''_'' then
                     (let g2 = takeWhile isdigit s4; s5 = dropWhile isdigit s4 in
                      if g2 = [] then None
                      else if list_all isspace s5 then Some (g1, g2) else None)
                   else None))
      else None)"

text \<open>The same scan for \<^verbatim>\<open>^\s*loop(\d+)_end\s*$\<close>; the result is group 1.\<close>

definition match_loop_end :: "string \<Rightarrow> string option" where
  "match_loop_end line =
     (let s1 = dropWhile isspace line in
      if take 4 s1 = ''loop'' then
        (let s2 = drop 4 s1; g1 = takeWhile isdigit s2; s3 = dropWhile isdigit s2 in
         if g1 = [] then None
         else if take 4 s3 = ''_end'' then
           (if list_all isspace (drop 4 s3) then Some g1 else None)
         else None)
      else None)"

subsection \<open>Errors and \<^verbatim>\<open>std::stoi\<close>\<close>

text \<open>
  The four \<^verbatim>\<open>throw std::runtime_error\<close> sites of \<^verbatim>\<open>compileSequence\<close>, in the order of the
  source, and the \<^verbatim>\<open>std::out_of_range\<close> that \<^verbatim>\<open>std::stoi\<close> throws when the digits denote a
  number that does not fit an \<^verbatim>\<open>int\<close>.
\<close>

datatype error =
    InvalidRepeat
  | UnmatchedLoopEnd
  | LoopIdMismatch
  | UnclosedLoop
  | StoiOutOfRange

text \<open>\<^verbatim>\<open>int\<close> has 32 bits on the platforms the package is built for.\<close>

definition INT_MAX :: int where
  "INT_MAX = 2147483647"

definition digit_value :: "char \<Rightarrow> int" where
  "digit_value c = of_char c - 48"

definition digits_value :: "string \<Rightarrow> int" where
  "digits_value ds = foldl (\<lambda>acc c. 10 * acc + digit_value c) 0 ds"

text \<open>\<^verbatim>\<open>std::stoi\<close> on a captured group, which is a non-empty string of digits.\<close>

definition stoi :: "string \<Rightarrow> error + int" where
  "stoi ds = (if INT_MAX < digits_value ds then Inl StoiOutOfRange
              else Inr (digits_value ds))"

subsection \<open>\<^verbatim>\<open>parseLoopStart\<close> and \<^verbatim>\<open>parseLoopEnd\<close>\<close>

text \<open>
  \<^verbatim>\<open>Inr None\<close> is the result \<^verbatim>\<open>false\<close>; \<^verbatim>\<open>Inr (Some _)\<close> is \<^verbatim>\<open>true\<close> with the values
  written to the reference parameters; \<^verbatim>\<open>Inl\<close> is the exception of \<^verbatim>\<open>std::stoi\<close>.
  The id is converted before the repeat count.
\<close>

definition parseLoopStart :: "string \<Rightarrow> error + (int \<times> int) option" where
  "parseLoopStart line =
     (case match_loop_start line of
        None \<Rightarrow> Inr None
      | Some (g1, g2) \<Rightarrow>
          (case stoi g1 of
             Inl e \<Rightarrow> Inl e
           | Inr i \<Rightarrow>
               (case stoi g2 of
                  Inl e \<Rightarrow> Inl e
                | Inr rep \<Rightarrow> Inr (Some (i, rep)))))"

definition parseLoopEnd :: "string \<Rightarrow> error + int option" where
  "parseLoopEnd line =
     (case match_loop_end line of
        None \<Rightarrow> Inr None
      | Some g1 \<Rightarrow>
          (case stoi g1 of
             Inl e \<Rightarrow> Inl e
           | Inr i \<Rightarrow> Inr (Some i)))"

subsection \<open>\<^verbatim>\<open>compileSequence\<close>\<close>

record LoopFrame =
  idF :: int
  repeat :: int
  block :: "string list"

text \<open>
  The inner loop \<^verbatim>\<open>for (int i = 0; i < frame.repeat; ++i)\<close>, which appends the block to
  \<^verbatim>\<open>expanded\<close> once per round; the first argument is the number of rounds left.  Lists
  are unbounded here: running out of memory is not part of the model.
\<close>

fun expand_rounds :: "nat \<Rightarrow> string list \<Rightarrow> string list \<Rightarrow> string list" where
  "expand_rounds 0 blk expanded = expanded"
| "expand_rounds (Suc k) blk expanded = expand_rounds k blk (expanded @ blk)"

definition expand :: "LoopFrame \<Rightarrow> string list" where
  "expand frame = expand_rounds (nat (repeat frame)) (block frame) []"

text \<open>
  Appending to the enclosing scope: to \<^verbatim>\<open>out\<close> when the stack is empty, to the block of
  \<^verbatim>\<open>stack.back()\<close> otherwise.  The stack is kept top first: \<^verbatim>\<open>stack.back()\<close> is the head
  of the list, \<^verbatim>\<open>push_back\<close> is \<open>#\<close> and \<^verbatim>\<open>pop_back\<close> is the tail.
\<close>

type_synonym compile_state = "string list \<times> LoopFrame list"

fun emit :: "string list \<Rightarrow> compile_state \<Rightarrow> compile_state" where
  "emit xs (out, []) = (out @ xs, [])"
| "emit xs (out, back # rest) = (out, back\<lparr>block := block back @ xs\<rparr> # rest)"

text \<open>One round of the loop \<^verbatim>\<open>for (const auto& line : raw)\<close>.\<close>

definition compileLine :: "compile_state \<Rightarrow> string \<Rightarrow> error + compile_state" where
  "compileLine st line =
     (case parseLoopStart line of
        Inl e \<Rightarrow> Inl e
      | Inr (Some (i, rep)) \<Rightarrow>
          if rep \<le> 0 then Inl InvalidRepeat
          else Inr (fst st, \<lparr>idF = i, repeat = rep, block = []\<rparr> # snd st)
      | Inr None \<Rightarrow>
          (case parseLoopEnd line of
             Inl e \<Rightarrow> Inl e
           | Inr (Some i) \<Rightarrow>
               (case snd st of
                  [] \<Rightarrow> Inl UnmatchedLoopEnd
                | frame # stack' \<Rightarrow>
                    if idF frame \<noteq> i then Inl LoopIdMismatch
                    else Inr (emit (expand frame) (fst st, stack')))
           | Inr None \<Rightarrow> Inr (emit [line] st)))"

fun compileLines :: "string list \<Rightarrow> compile_state \<Rightarrow> error + compile_state" where
  "compileLines [] st = Inr st"
| "compileLines (line # raw) st =
     (case compileLine st line of
        Inl e \<Rightarrow> Inl e
      | Inr st' \<Rightarrow> compileLines raw st')"

definition compileSequence :: "string list \<Rightarrow> error + string list" where
  "compileSequence raw =
     (case compileLines raw ([], []) of
        Inl e \<Rightarrow> Inl e
      | Inr (out, stack) \<Rightarrow> if stack = [] then Inr out else Inl UnclosedLoop)"


section \<open>The step sequencer\<close>

subsection \<open>The device manager\<close>

text \<open>
  The class of \<^verbatim>\<open>devices_manager_\<close> is declared outside this file.  Its operations are
  taken as parameters: a device manager state of an arbitrary type \<open>'dm\<close> and the four
  operations the controller uses on it, each returning the manager state it leaves.
\<close>

text \<open>
  Of the enumeration \<^verbatim>\<open>Situation\<close> the file uses the value \<^verbatim>\<open>STANDBY\<close> only; the second
  constructor stands for its other values.
\<close>

datatype Situation = STANDBY | OTHER_SITUATION

record 'dm DeviceStateManager =
  addDevice :: "string \<Rightarrow> 'dm \<Rightarrow> 'dm"
  set_initializing :: "bool \<Rightarrow> 'dm \<Rightarrow> 'dm"
  updateDeviceStatus :: "string \<Rightarrow> 'dm \<Rightarrow> bool \<times> 'dm"
  checkDevices :: "Situation \<Rightarrow> 'dm \<Rightarrow> bool"

subsection \<open>The controller\<close>

text \<open>
  The members of \<^verbatim>\<open>ProcessController\<close> that the file uses.  \<^verbatim>\<open>step_index_\<close> counts up from
  zero and is compared with \<^verbatim>\<open>sequence_.size()\<close>; it is a natural number here.
\<close>

record 'dm ProcessController =
  current_step :: string
  step_index :: nat
  sequence :: "string list"
  devices_manager :: 'dm

definition updateDeviceStatuses ::
  "'dm DeviceStateManager \<Rightarrow> string \<Rightarrow> 'dm \<Rightarrow> string \<times> 'dm" where
  "updateDeviceStatuses ops command dm =
     (case updateDeviceStatus ops command dm of
        (message, dm') \<Rightarrow>
          (if message then ''update device status success''
           else ''update device status error'', dm'))"

text \<open>The statement \<^verbatim>\<open>updateDeviceStatuses(current_step_);\<close>, whose result is dropped.\<close>

definition dispatch :: "'dm DeviceStateManager \<Rightarrow> 'dm ProcessController \<Rightarrow> 'dm ProcessController" where
  "dispatch ops s =
     s\<lparr>devices_manager := snd (updateDeviceStatuses ops (current_step s) (devices_manager s))\<rparr>"

definition isSequenceCompleted :: "'dm ProcessController \<Rightarrow> bool" where
  "isSequenceCompleted s = (step_index s \<ge> length (sequence s))"

definition isReadyToNextStep :: "'dm DeviceStateManager \<Rightarrow> 'dm ProcessController \<Rightarrow> bool" where
  "isReadyToNextStep ops s = checkDevices ops STANDBY (devices_manager s)"

definition getCurrentStep :: "'dm ProcessController \<Rightarrow> string" where
  "getCurrentStep s = current_step s"

text \<open>
  \<^verbatim>\<open>sequence_[step_index_]\<close> is \<^verbatim>\<open>operator[]\<close> of \<^verbatim>\<open>std::vector\<close>: it has no bounds check,
  and an index that is not below the size is undefined behaviour.  The result \<open>None\<close>
  is that case; no state is given for it.
\<close>

definition moveToNextStep ::
  "'dm DeviceStateManager \<Rightarrow> 'dm ProcessController \<Rightarrow> 'dm ProcessController option" where
  "moveToNextStep ops s =
     (if step_index s = 0 \<and> current_step s \<noteq> ''init'' then Some (dispatch ops s)
      else if step_index s < length (sequence s) then
        (let s1 = s\<lparr>current_step := sequence s ! step_index s\<rparr>;
             s2 = dispatch ops s1
         in Some (s2\<lparr>step_index := step_index s2 + 1\<rparr>))
      else None)"

text \<open>\<open>n\<close> successive calls of \<^verbatim>\<open>moveToNextStep\<close>.\<close>

fun moves :: "'dm DeviceStateManager \<Rightarrow> nat \<Rightarrow> 'dm ProcessController \<Rightarrow> 'dm ProcessController option" where
  "moves ops 0 s = Some s"
| "moves ops (Suc n) s =
     (case moveToNextStep ops s of
        None \<Rightarrow> None
      | Some s' \<Rightarrow> moves ops n s')"

subsection \<open>\<^verbatim>\<open>initializeSequences\<close>\<close>

text \<open>
  The initializer list assigned to \<^verbatim>\<open>raw\<close> when the file cannot be opened.  There is no
  comma between its last two string literals, so they are one literal: the list has four
  elements.
\<close>

definition fallback_raw :: "string list" where
  "fallback_raw =
     [''slider_init cobotta_init weighing_init plc_init'',
      ''slider_shelf_1 plc_buzz'',
      ''weighing_open slider_weight_pos cobotta_test'',
      ''slider_init cobotta_init weighing_init plc_init'' @ ''finished'']"

text \<open>
  The loop \<^verbatim>\<open>while (std::getline(file, line))\<close>: the lines of the file in order, the
  empty ones and those starting with \<^verbatim>\<open>#\<close> skipped, appended to \<^verbatim>\<open>raw\<close>.
\<close>

fun readLines :: "string list \<Rightarrow> string list \<Rightarrow> string list" where
  "readLines [] raw = raw"
| "readLines (line # rest) raw =
     (if line = [] then readLines rest raw
      else if hd line = CHR ''#'' then readLines rest raw
      else readLines rest (raw @ [line]))"

text \<open>The \<^verbatim>\<open>try\<close> block and its handler, which catches every \<^verbatim>\<open>std::exception\<close>.\<close>

definition compile_into :: "string list \<Rightarrow> 'dm ProcessController \<Rightarrow> 'dm ProcessController" where
  "compile_into raw s =
     (case compileSequence raw of
        Inr out \<Rightarrow> s\<lparr>sequence := out\<rparr>
      | Inl e \<Rightarrow> s\<lparr>sequence := [''finished'']\<rparr>)"

text \<open>
  \<^verbatim>\<open>if (sequence_.empty() || sequence_.back() != "finished")\<close>, the second operand
  evaluated only when the sequence is not empty.
\<close>

definition guarantee_finished :: "'dm ProcessController \<Rightarrow> 'dm ProcessController" where
  "guarantee_finished s =
     (if sequence s = [] then s\<lparr>sequence := sequence s @ [''finished'']\<rparr>
      else if last (sequence s) = ''finished'' then s
      else s\<lparr>sequence := sequence s @ [''finished'']\<rparr>)"

text \<open>
  The file is the list of its lines, or \<open>None\<close> when \<^verbatim>\<open>file.is_open()\<close> is false.  In that
  case \<^verbatim>\<open>raw\<close> is assigned and the function returns; \<^verbatim>\<open>raw\<close> is a local variable.
  The messages written to \<^verbatim>\<open>std::cerr\<close> are left out.
\<close>

definition initializeSequences ::
  "string list option \<Rightarrow> 'dm ProcessController \<Rightarrow> 'dm ProcessController" where
  "initializeSequences file s =
     (case file of
        None \<Rightarrow> (let raw = fallback_raw in s)
      | Some file_lines \<Rightarrow>
          (let raw = readLines file_lines [] in guarantee_finished (compile_into raw s)))"

subsection \<open>The constructor\<close>

text \<open>
  \<open>dm0\<close> is the default-constructed device manager and \<^verbatim>\<open>sequence_\<close> starts empty.  The
  constructor ends with a call of \<^verbatim>\<open>moveToNextStep\<close>, so it has a result only when that
  call has one.
\<close>

definition register_devices :: "'dm DeviceStateManager \<Rightarrow> 'dm \<Rightarrow> 'dm" where
  "register_devices ops dm0 =
     set_initializing ops False
       (addDevice ops ''plc''
         (addDevice ops ''cobotta''
           (addDevice ops ''slider''
             (addDevice ops ''weighing''
               (set_initializing ops True dm0)))))"

definition constructed :: "'dm DeviceStateManager \<Rightarrow> 'dm \<Rightarrow> string \<Rightarrow> 'dm ProcessController" where
  "constructed ops dm0 command =
     \<lparr>current_step = command, step_index = 0, sequence = [],
      devices_manager = register_devices ops dm0\<rparr>"

definition new_ProcessController ::
  "'dm DeviceStateManager \<Rightarrow> 'dm \<Rightarrow> string list option \<Rightarrow> string \<Rightarrow> 'dm ProcessController option" where
  "new_ProcessController ops dm0 file command =
     moveToNextStep ops (initializeSequences file (constructed ops dm0 command))"

subsection \<open>A recording device manager\<close>

text \<open>
  A device manager for the closed examples below: its state is the list of the commands it
  was sent, and every update reports the flag \<open>ok\<close>.
\<close>

definition recording_manager :: "bool \<Rightarrow> (string list) DeviceStateManager" where
  "recording_manager ok =
     \<lparr>addDevice = (\<lambda>name dm. dm),
      set_initializing = (\<lambda>b dm. dm),
      updateDeviceStatus = (\<lambda>command dm. (ok, dm @ [command])),
      checkDevices = (\<lambda>situation dm. True)\<rparr>"


section \<open>Notions used in the statements\<close>

subsection \<open>Plain instructions and the text of a marker\<close>

text \<open>A plain instruction is a line that neither regular expression matches.\<close>

definition plain :: "string \<Rightarrow> bool" where
  "plain line = (match_loop_start line = None \<and> match_loop_end line = None)"

definition frames_plain :: "compile_state \<Rightarrow> bool" where
  "frames_plain st =
     (list_all plain (fst st) \<and> list_all (\<lambda>frame. list_all plain (block frame)) (snd st))"

text \<open>The decimal numeral of a natural number, and the marker lines written with it.\<close>

definition digit_char :: "nat \<Rightarrow> char" where
  "digit_char d = ''0123456789'' ! d"

fun dec :: "nat \<Rightarrow> string" where
  "dec n = (if n < 10 then [digit_char n] else dec (n div 10) @ [digit_char (n mod 10)])"

declare dec.simps [simp del]

definition loop_start_line :: "nat \<Rightarrow> nat \<Rightarrow> string" where
  "loop_start_line i n = ''loop'' @ dec i @ ''_'' @ dec n"

definition loop_end_line :: "nat \<Rightarrow> string" where
  "loop_end_line i = ''loop'' @ dec i @ ''_end''"

subsection \<open>The structural errors, as the specification words them\<close>

text \<open>
  The line grammar of the specification: a loop start carries an id and a repeat count, a
  loop end carries an id, both non-negative integers of any size; every other line is a
  plain instruction.
\<close>

datatype token = LoopStart int int | LoopEnd int | Plain string

definition classify :: "string \<Rightarrow> token" where
  "classify line =
     (case match_loop_start line of
        Some (g1, g2) \<Rightarrow> LoopStart (digits_value g1) (digits_value g2)
      | None \<Rightarrow>
          (case match_loop_end line of
             Some g1 \<Rightarrow> LoopEnd (digits_value g1)
           | None \<Rightarrow> Plain line))"

text \<open>
  One token against the ids of the open loops, innermost first: \<open>InvalidRepeat\<close> for a
  repeat count that is not positive, \<open>UnmatchedLoopEnd\<close> for a loop end with no loop open,
  \<open>LoopIdMismatch\<close> for a loop end whose id is not the innermost open one.
\<close>

fun structural_step :: "token \<Rightarrow> int list \<Rightarrow> error + int list" where
  "structural_step (LoopStart i r) ids = (if r \<le> 0 then Inl InvalidRepeat else Inr (i # ids))"
| "structural_step (LoopEnd i) [] = Inl UnmatchedLoopEnd"
| "structural_step (LoopEnd i) (j # ids) = (if j = i then Inr ids else Inl LoopIdMismatch)"
| "structural_step (Plain l) ids = Inr ids"

fun structural_scan :: "token list \<Rightarrow> int list \<Rightarrow> error + int list" where
  "structural_scan [] ids = Inr ids"
| "structural_scan (t # ts) ids =
     (case structural_step t ids of
        Inl e \<Rightarrow> Inl e
      | Inr ids' \<Rightarrow> structural_scan ts ids')"

text \<open>The first structural error of an input; \<open>UnclosedLoop\<close> when a loop is open at its end.\<close>

definition structural_error :: "token list \<Rightarrow> error option" where
  "structural_error ts =
     (case structural_scan ts [] of
        Inl e \<Rightarrow> Some e
      | Inr ids \<Rightarrow> if ids = [] then None else Some UnclosedLoop)"

text \<open>
  The same scan with the limit of \<^verbatim>\<open>int\<close>: a marker with a number above \<open>INT_MAX\<close> stops
  it before the structural rules are looked at.
\<close>

fun fits_int :: "token \<Rightarrow> bool" where
  "fits_int (LoopStart i r) = (i \<le> INT_MAX \<and> r \<le> INT_MAX)"
| "fits_int (LoopEnd i) = (i \<le> INT_MAX)"
| "fits_int (Plain l) = True"

fun failure_scan :: "token list \<Rightarrow> int list \<Rightarrow> error + int list" where
  "failure_scan [] ids = Inr ids"
| "failure_scan (t # ts) ids =
     (if fits_int t then
        (case structural_step t ids of
           Inl e \<Rightarrow> Inl e
         | Inr ids' \<Rightarrow> failure_scan ts ids')
      else Inl StoiOutOfRange)"

definition compile_failure :: "token list \<Rightarrow> error option" where
  "compile_failure ts =
     (case failure_scan ts [] of
        Inl e \<Rightarrow> Some e
      | Inr ids \<Rightarrow> if ids = [] then None else Some UnclosedLoop)"

text \<open>The ids of the frames on the stack, innermost first.\<close>

definition open_ids :: "compile_state \<Rightarrow> int list" where
  "open_ids st = map idF (snd st)"

subsection \<open>The two branches of \<^verbatim>\<open>moveToNextStep\<close>\<close>

text \<open>The condition of the first branch, which sends the current step again.\<close>

definition redispatch :: "'dm ProcessController \<Rightarrow> bool" where
  "redispatch s = (step_index s = 0 \<and> current_step s \<noteq> ''init'')"

text \<open>The device manager after the same command was sent \<open>n\<close> times.\<close>

fun dispatches :: "'dm DeviceStateManager \<Rightarrow> string \<Rightarrow> nat \<Rightarrow> 'dm \<Rightarrow> 'dm" where
  "dispatches ops command 0 dm = dm"
| "dispatches ops command (Suc n) dm =
     dispatches ops command n (snd (updateDeviceStatuses ops command dm))"

section \<open>The line matchers\<close>

text \<open>
  The scans accept exactly the lines of the two regular expressions: white space, \<^verbatim>\<open>loop\<close>,
  digits, then \<^verbatim>\<open>_\<close> and digits, or \<^verbatim>\<open>_end\<close>, then white space.
\<close>

lemma space_not_digit: "isspace c \<Longrightarrow> \<not> isdigit c"
  by (auto simp: isspace_def isdigit_def)

lemma takeWhile_digits:
  "list_all isdigit g \<Longrightarrow> \<not> isdigit c \<Longrightarrow> takeWhile isdigit (g @ c # r) = g"
  by (induction g) simp_all

lemma dropWhile_digits:
  "list_all isdigit g \<Longrightarrow> \<not> isdigit c \<Longrightarrow> dropWhile isdigit (g @ c # r) = c # r"
  by (induction g) simp_all

lemma takeWhile_digits_spaces:
  "list_all isdigit g \<Longrightarrow> list_all isspace w \<Longrightarrow> takeWhile isdigit (g @ w) = g"
  by (induction g) (cases w; simp add: space_not_digit)+

lemma dropWhile_digits_spaces:
  "list_all isdigit g \<Longrightarrow> list_all isspace w \<Longrightarrow> dropWhile isdigit (g @ w) = w"
  by (induction g) (cases w; simp add: space_not_digit)+

lemma dropWhile_spaces:
  "list_all isspace w \<Longrightarrow> \<not> isspace c \<Longrightarrow> dropWhile isspace (w @ c # r) = c # r"
  by (induction w) simp_all

lemma match_loop_start_shape:
  assumes "list_all isspace w1" "list_all isspace w2"
    and "list_all isdigit g1" "g1 \<noteq> []" "list_all isdigit g2" "g2 \<noteq> []"
  shows "match_loop_start (w1 @ ''loop'' @ g1 @ ''_'' @ g2 @ w2) = Some (g1, g2)"
proof -
  have a: "dropWhile isspace (w1 @ ''loop'' @ g1 @ ''_'' @ g2 @ w2) = ''loop'' @ g1 @ ''_'' @ g2 @ w2"
    using dropWhile_spaces[OF assms(1), of "CHR ''l''"] by (simp add: isspace_def)
  have b: "takeWhile isdigit (g1 @ ''_'' @ g2 @ w2) = g1"
    using takeWhile_digits[OF assms(3), of "CHR ''_''"] by (simp add: isdigit_def)
  have c: "dropWhile isdigit (g1 @ ''_'' @ g2 @ w2) = ''_'' @ g2 @ w2"
    using dropWhile_digits[OF assms(3), of "CHR ''_''"] by (simp add: isdigit_def)
  have d: "takeWhile isdigit (g2 @ w2) = g2" "dropWhile isdigit (g2 @ w2) = w2"
    using assms by (simp_all add: takeWhile_digits_spaces dropWhile_digits_spaces)
  show ?thesis
    using assms(2,4,6) a b c d by (simp add: match_loop_start_def)
qed

lemma match_loop_end_shape:
  assumes "list_all isspace w1" "list_all isspace w2"
    and "list_all isdigit g1" "g1 \<noteq> []"
  shows "match_loop_end (w1 @ ''loop'' @ g1 @ ''_end'' @ w2) = Some g1"
proof -
  have a: "dropWhile isspace (w1 @ ''loop'' @ g1 @ ''_end'' @ w2) = ''loop'' @ g1 @ ''_end'' @ w2"
    using dropWhile_spaces[OF assms(1), of "CHR ''l''"] by (simp add: isspace_def)
  have b: "takeWhile isdigit (g1 @ ''_end'' @ w2) = g1"
    using takeWhile_digits[OF assms(3), of "CHR ''_''"] by (simp add: isdigit_def)
  have c: "dropWhile isdigit (g1 @ ''_end'' @ w2) = ''_end'' @ w2"
    using dropWhile_digits[OF assms(3), of "CHR ''_''"] by (simp add: isdigit_def)
  show ?thesis
    using assms(2,4) a b c by (simp add: match_loop_end_def)
qed

lemma take4_split: "take 4 s = k \<Longrightarrow> s = k @ drop 4 s"
  by (metis append_take_drop_id)

lemma match_loop_start_Some:
  assumes "match_loop_start line = Some (g1, g2)"
  shows "\<exists>w1 w2. line = w1 @ ''loop'' @ g1 @ ''_'' @ g2 @ w2
           \<and> list_all isspace w1 \<and> list_all isspace w2
           \<and> list_all isdigit g1 \<and> g1 \<noteq> [] \<and> list_all isdigit g2 \<and> g2 \<noteq> []"
proof -
  define s1 where "s1 = dropWhile isspace line"
  define s2 where "s2 = drop 4 s1"
  define s3 where "s3 = dropWhile isdigit s2"
  from assms have l: "take 4 s1 = ''loop''"
    by (simp add: match_loop_start_def s1_def Let_def split: if_splits)
  with assms have g1: "g1 = takeWhile isdigit s2" "g1 \<noteq> []"
    by (auto simp: match_loop_start_def s1_def s2_def Let_def split: if_splits list.splits)
  from assms l obtain s4 where s3: "s3 = CHR ''_'' # s4"
    and g2: "g2 = takeWhile isdigit s4" "g2 \<noteq> []"
    and w2: "list_all isspace (dropWhile isdigit s4)"
    by (auto simp: match_loop_start_def s1_def s2_def s3_def Let_def
        split: if_splits list.splits)
  have "line = takeWhile isspace line @ s1" by (simp add: s1_def)
  also have "s1 = ''loop'' @ s2" using take4_split[OF l] by (simp add: s2_def)
  also have "s2 = g1 @ s3" by (simp add: g1 s3_def)
  also have "s3 = ''_'' @ s4" by (simp add: s3)
  also have "s4 = g2 @ dropWhile isdigit s4" by (simp add: g2)
  finally have "line = takeWhile isspace line @ ''loop'' @ g1 @ ''_'' @ g2 @ dropWhile isdigit s4" .
  moreover have "list_all isspace (takeWhile isspace line)"
    "list_all isdigit g1" "list_all isdigit g2"
    by (auto simp: g1 g2 list_all_iff dest: set_takeWhileD)
  ultimately show ?thesis using g1(2) g2(2) w2 by blast
qed

lemma match_loop_start_iff:
  "(match_loop_start line = Some (g1, g2)) =
     (\<exists>w1 w2. line = w1 @ ''loop'' @ g1 @ ''_'' @ g2 @ w2
           \<and> list_all isspace w1 \<and> list_all isspace w2
           \<and> list_all isdigit g1 \<and> g1 \<noteq> [] \<and> list_all isdigit g2 \<and> g2 \<noteq> [])"
  using match_loop_start_Some match_loop_start_shape by blast

lemma match_loop_end_Some:
  assumes "match_loop_end line = Some g1"
  shows "\<exists>w1 w2. line = w1 @ ''loop'' @ g1 @ ''_end'' @ w2
           \<and> list_all isspace w1 \<and> list_all isspace w2
           \<and> list_all isdigit g1 \<and> g1 \<noteq> []"
proof -
  define s1 where "s1 = dropWhile isspace line"
  define s2 where "s2 = drop 4 s1"
  define s3 where "s3 = dropWhile isdigit s2"
  from assms have l: "take 4 s1 = ''loop''"
    by (simp add: match_loop_end_def s1_def Let_def split: if_splits)
  with assms have g1: "g1 = takeWhile isdigit s2" "g1 \<noteq> []"
    and e: "take 4 s3 = ''_end''" and w2: "list_all isspace (drop 4 s3)"
    by (auto simp: match_loop_end_def s1_def s2_def s3_def Let_def split: if_splits)
  have "line = takeWhile isspace line @ s1" by (simp add: s1_def)
  also have "s1 = ''loop'' @ s2" using take4_split[OF l] by (simp add: s2_def)
  also have "s2 = g1 @ s3" by (simp add: g1 s3_def)
  also have "s3 = ''_end'' @ drop 4 s3" using e by (rule take4_split)
  finally have "line = takeWhile isspace line @ ''loop'' @ g1 @ ''_end'' @ drop 4 s3" .
  moreover have "list_all isspace (takeWhile isspace line)" "list_all isdigit g1"
    by (auto simp: g1 list_all_iff dest: set_takeWhileD)
  ultimately show ?thesis using g1(2) w2 by blast
qed

lemma match_loop_end_iff:
  "(match_loop_end line = Some g1) =
     (\<exists>w1 w2. line = w1 @ ''loop'' @ g1 @ ''_end'' @ w2
           \<and> list_all isspace w1 \<and> list_all isspace w2
           \<and> list_all isdigit g1 \<and> g1 \<noteq> [])"
  using match_loop_end_Some match_loop_end_shape by blast

lemma end_not_digits: "take 3 s = ''end'' \<Longrightarrow> takeWhile isdigit s = []"
  by (cases s) (auto simp: isdigit_def)

lemma match_loop_start_end_excl:
  "match_loop_start line = Some p \<Longrightarrow> match_loop_end line = None"
  by (auto simp: match_loop_start_def match_loop_end_def Let_def split: if_splits list.splits
           dest: end_not_digits)

section \<open>Properties of the compiler\<close>

subsection \<open>The loop body on plain lines and on markers\<close>

lemma expand_rounds_concat:
  "expand_rounds k blk acc = acc @ concat (replicate k blk)"
proof (induction k arbitrary: acc)
  case 0
  show ?case by simp
next
  case (Suc k)
  have "replicate (Suc k) blk = replicate k blk @ [blk]"
    by (simp add: replicate_append_same)
  then have "concat (replicate (Suc k) blk) = concat (replicate k blk) @ blk"
    by (simp del: replicate.simps)
  moreover have "blk @ concat (replicate k blk) = concat (replicate k blk) @ blk"
    by (induction k) simp_all
  ultimately show ?case using Suc.IH[of "acc @ blk"] by simp
qed

lemma expand_concat: "expand frame = concat (replicate (nat (repeat frame)) (block frame))"
  by (simp add: expand_def expand_rounds_concat)

lemma length_concat_replicate: "length (concat (replicate n blk)) = n * length blk"
  by (induction n) simp_all

lemma emit_append: "emit (xs @ ys) st = emit ys (emit xs st)"
proof (cases st)
  case (Pair out stack)
  then show ?thesis by (cases stack) simp_all
qed

lemma open_ids_emit: "open_ids (emit xs st) = open_ids st"
proof (cases st)
  case (Pair out stack)
  then show ?thesis by (cases stack) (simp_all add: open_ids_def)
qed

lemma compileLines_append:
  "compileLines (xs @ ys) st =
     (case compileLines xs st of Inl e \<Rightarrow> Inl e | Inr st' \<Rightarrow> compileLines ys st')"
  by (induction xs arbitrary: st) (simp_all split: sum.splits)

lemma parseLoopStart_None: "(parseLoopStart line = Inr None) = (match_loop_start line = None)"
  by (auto simp: parseLoopStart_def split: option.splits sum.splits prod.splits)

lemma parseLoopEnd_None: "(parseLoopEnd line = Inr None) = (match_loop_end line = None)"
  by (auto simp: parseLoopEnd_def split: option.splits sum.splits)

lemma compileLine_plain: "plain line \<Longrightarrow> compileLine st line = Inr (emit [line] st)"
  by (simp add: compileLine_def plain_def parseLoopStart_None[symmetric]
      parseLoopEnd_None[symmetric])

lemma compileLines_plain:
  "list_all plain blk \<Longrightarrow> compileLines blk st = Inr (emit blk st)"
proof (induction blk arbitrary: st)
  case Nil
  show ?case
  proof (cases st)
    case (Pair out stack)
    then show ?thesis by (cases stack) simp_all
  qed
next
  case (Cons l blk)
  have "emit (l # blk) st = emit blk (emit [l] st)"
    using emit_append[of "[l]" blk st] by simp
  with Cons show ?case by (simp add: compileLine_plain)
qed

lemma compileLine_start:
  assumes "parseLoopStart l = Inr (Some (i, n))" "0 < n"
  shows "compileLine st l = Inr (fst st, \<lparr>idF = i, repeat = n, block = []\<rparr> # snd st)"
  using assms by (simp add: compileLine_def)

lemma compileLine_end:
  assumes "parseLoopStart l = Inr None" "parseLoopEnd l = Inr (Some (idF frame))"
  shows "compileLine (out, frame # stack) l = Inr (emit (expand frame) (out, stack))"
  using assms by (simp add: compileLine_def)

text \<open>
  A loop around plain lines, in any enclosing scope: the block, repeated, goes to the
  enclosing scope and the stack is as before.
\<close>

lemma compileLines_loop:
  assumes start: "parseLoopStart l = Inr (Some (i, n))" and pos: "0 < n"
    and stop: "parseLoopStart e = Inr None" "parseLoopEnd e = Inr (Some i)"
    and blk: "list_all plain blk"
  shows "compileLines (l # blk @ [e]) st = Inr (emit (concat (replicate (nat n) blk)) st)"
proof -
  let ?frame = "\<lparr>idF = i, repeat = n, block = []\<rparr>"
  have 1: "compileLine st l = Inr (fst st, ?frame # snd st)"
    using start pos by (rule compileLine_start)
  have 2: "compileLines blk (fst st, ?frame # snd st)
             = Inr (fst st, ?frame\<lparr>block := blk\<rparr> # snd st)"
    using compileLines_plain[OF blk, of "(fst st, ?frame # snd st)"] by simp
  have 3: "compileLine (fst st, ?frame\<lparr>block := blk\<rparr> # snd st) e
             = Inr (emit (expand (?frame\<lparr>block := blk\<rparr>)) (fst st, snd st))"
    using stop by (intro compileLine_end) simp_all
  have 4: "expand (?frame\<lparr>block := blk\<rparr>) = concat (replicate (nat n) blk)"
    by (simp add: expand_concat)
  show ?thesis
    using 1 2 3 4 by (simp add: compileLines_append)
qed

subsection \<open>Decimal numerals\<close>

lemma digit_cases: "d < (10::nat) \<Longrightarrow> d \<in> {0, 1, 2, 3, 4, 5, 6, 7, 8, 9}"
  by auto

lemma digit_char_props:
  assumes "d < 10"
  shows "isdigit (digit_char d)" and "digit_value (digit_char d) = int d"
  using digit_cases[OF assms]
  by (auto simp: digit_char_def isdigit_def digit_value_def)

lemma digits_value_snoc: "digits_value (ds @ [c]) = 10 * digits_value ds + digit_value c"
  by (simp add: digits_value_def)

lemma digits_value_dec: "digits_value (dec n) = int n"
proof (induction n rule: dec.induct)
  case (1 n)
  show ?case
  proof (cases "n < 10")
    case True
    then show ?thesis
      by (simp add: dec.simps[of n] digits_value_def digit_char_props)
  next
    case False
    with 1 have "digits_value (dec (n div 10)) = int (n div 10)" by simp
    with False show ?thesis
      by (simp add: dec.simps[of n] digits_value_snoc digit_char_props zdiv_int zmod_int)
  qed
qed

lemma dec_digits: "list_all isdigit (dec n)"
proof (induction n rule: dec.induct)
  case (1 n)
  then show ?case
    by (cases "n < 10") (simp_all add: dec.simps[of n] digit_char_props)
qed

lemma dec_nonempty: "dec n \<noteq> []"
  by (cases "n < 10") (simp_all add: dec.simps[of n])

lemma parseLoopStart_line:
  assumes "int i \<le> INT_MAX" "int n \<le> INT_MAX"
  shows "parseLoopStart (loop_start_line i n) = Inr (Some (int i, int n))"
proof -
  have "match_loop_start (loop_start_line i n) = Some (dec i, dec n)"
    using match_loop_start_shape[of "[]" "[]" "dec i" "dec n"]
    by (simp add: loop_start_line_def dec_digits dec_nonempty)
  with assms show ?thesis
    by (simp add: parseLoopStart_def stoi_def digits_value_dec)
qed

lemma parseLoopEnd_line:
  assumes "int i \<le> INT_MAX"
  shows "parseLoopStart (loop_end_line i) = Inr None"
    and "parseLoopEnd (loop_end_line i) = Inr (Some (int i))"
proof -
  have m: "match_loop_end (loop_end_line i) = Some (dec i)"
    using match_loop_end_shape[of "[]" "[]" "dec i"]
    by (simp add: loop_end_line_def dec_digits dec_nonempty)
  with assms show "parseLoopEnd (loop_end_line i) = Inr (Some (int i))"
    by (simp add: parseLoopEnd_def stoi_def digits_value_dec)
  have "match_loop_start (loop_end_line i) = None"
  proof (cases "match_loop_start (loop_end_line i)")
    case (Some p)
    with m show ?thesis by (simp add: match_loop_start_end_excl)
  qed simp
  then show "parseLoopStart (loop_end_line i) = Inr None"
    by (simp add: parseLoopStart_None)
qed

lemma loop1_3: "loop_start_line 1 3 = ''loop1_3''" "loop_end_line 1 = ''loop1_end''"
  by (simp_all add: loop_start_line_def loop_end_line_def dec.simps digit_char_def)

subsection \<open>Nested loops\<close>

text \<open>
  C5.  An inner loop is expanded into the block of the outer loop before the outer loop is
  expanded: the lines \<^verbatim>\<open>loop1_2, x, loop2_2, y, loop2_end, loop1_end\<close> compile to
  \<^verbatim>\<open>x, y, y, x, y, y\<close>.
\<close>

theorem C5_nested_loops:
  "compileSequence [''loop1_2'', ''x'', ''loop2_2'', ''y'', ''loop2_end'', ''loop1_end'']
     = Inr [''x'', ''y'', ''y'', ''x'', ''y'', ''y'']"
  by code_simp

subsection \<open>One loop around plain lines\<close>

text \<open>
  C8, with the limit of \<^verbatim>\<open>int\<close>.  For every id \<open>i\<close> and repeat count \<open>n\<close> with
  \<open>i \<le> INT_MAX\<close> and \<open>1 \<le> n \<le> INT_MAX\<close>, and every block of plain lines, compiling the
  lines \<^verbatim>\<open>loop<i>_<n>\<close>, the block, \<^verbatim>\<open>loop<i>_end\<close> appends the block \<open>n\<close> times in a row,
  \<open>n\<close> times its length in all, to the enclosing scope (the output, or the block of the
  innermost open loop) and leaves the stack as it was; on its own the input compiles to
  exactly that.
\<close>

theorem C8_loop_expansion:
  assumes "int i \<le> INT_MAX" and "1 \<le> n" and "int n \<le> INT_MAX" and "list_all plain blk"
  shows "compileLines (loop_start_line i n # blk @ [loop_end_line i]) st
           = Inr (emit (concat (replicate n blk)) st)
       \<and> length (concat (replicate n blk)) = n * length blk
       \<and> compileSequence (loop_start_line i n # blk @ [loop_end_line i])
           = Inr (concat (replicate n blk))"
proof -
  have run: "compileLines (loop_start_line i n # blk @ [loop_end_line i]) st
           = Inr (emit (concat (replicate (nat (int n)) blk)) st)" for st
    using assms by (intro compileLines_loop[where i = "int i"])
      (simp_all add: parseLoopStart_line parseLoopEnd_line)
  show ?thesis
    using run[of st] run[of "([], [])"]
    by (simp add: length_concat_replicate compileSequence_def)
qed

text \<open>
  The loop \<^verbatim>\<open>loop1_3\<close> around \<^verbatim>\<open>a, b\<close>, at top level and inside an open loop.
\<close>

theorem C8_loop_expansion_witness:
  "compileSequence [''loop1_3'', ''a'', ''b'', ''loop1_end'']
     = Inr [''a'', ''b'', ''a'', ''b'', ''a'', ''b'']
   \<and> compileLines [''loop1_3'', ''a'', ''b'', ''loop1_end'']
        ([''z''], [\<lparr>idF = 4, repeat = 2, block = [''y'']\<rparr>])
     = Inr ([''z''],
            [\<lparr>idF = 4, repeat = 2, block = [''y'', ''a'', ''b'', ''a'', ''b'', ''a'', ''b'']\<rparr>])"
proof -
  have p: "list_all plain [''a'', ''b'']" by code_simp
  have r: "int 1 \<le> INT_MAX" "(1::nat) \<le> 3" "int 3 \<le> INT_MAX" by (simp_all add: INT_MAX_def)
  have c: "concat (replicate 3 [''a'', ''b'']) = [''a'', ''b'', ''a'', ''b'', ''a'', ''b'']"
    by (simp add: numeral_3_eq_3)
  note t = C8_loop_expansion[OF r p, of "([''z''], [\<lparr>idF = 4, repeat = 2, block = [''y'']\<rparr>])",
      unfolded loop1_3 c]
  from t show ?thesis by simp
qed

text \<open>
  The repeat count 2147483648 is at least 1, and the lines \<^verbatim>\<open>loop1_2147483648, a, loop1_end\<close>
  do not compile: \<^verbatim>\<open>std::stoi\<close> throws on the count.
\<close>

theorem C8_counterexample:
  "loop_start_line 1 2147483648 = ''loop1_2147483648''
   \<and> loop_end_line 1 = ''loop1_end''
   \<and> list_all plain [''a'']
   \<and> compileSequence [''loop1_2147483648'', ''a'', ''loop1_end''] = Inl StoiOutOfRange"
proof -
  have "loop_start_line 1 2147483648 = ''loop1_2147483648''"
    by (simp add: loop_start_line_def dec.simps digit_char_def)
  moreover have "list_all plain [''a'']" by code_simp
  moreover have "compileSequence [''loop1_2147483648'', ''a'', ''loop1_end''] = Inl StoiOutOfRange"
    by code_simp
  moreover note loop1_3(2)
  ultimately show ?thesis by (simp del: One_nat_def)
qed

subsection \<open>No marker is left in the output\<close>

lemma frames_plain_emit:
  "list_all plain xs \<Longrightarrow> frames_plain st \<Longrightarrow> frames_plain (emit xs st)"
proof (cases st)
  case (Pair out stack)
  assume "list_all plain xs" "frames_plain st"
  with Pair show ?thesis by (cases stack) (simp_all add: frames_plain_def)
qed

lemma plain_expand: "list_all plain (block frame) \<Longrightarrow> list_all plain (expand frame)"
  by (simp add: expand_concat list_all_iff)

lemma compileLine_frames_plain:
  assumes "compileLine st line = Inr st'" and "frames_plain st"
  shows "frames_plain st'"
proof (cases "parseLoopStart line")
  case (Inl e)
  with assms show ?thesis by (simp add: compileLine_def)
next
  case (Inr r)
  note start = Inr
  show ?thesis
  proof (cases r)
    case (Some p)
    with start assms show ?thesis
      by (cases p) (auto simp: compileLine_def frames_plain_def split: if_splits)
  next
    case None
    note no_start = start[unfolded None]
    show ?thesis
    proof (cases "parseLoopEnd line")
      case (Inl e)
      with no_start assms show ?thesis by (simp add: compileLine_def)
    next
      case (Inr r2)
      note stop = Inr
      show ?thesis
      proof (cases r2)
        case None
        from no_start stop None have "plain line"
          by (simp add: plain_def parseLoopStart_None parseLoopEnd_None)
        with assms show ?thesis
          by (auto simp: compileLine_plain intro: frames_plain_emit)
      next
        case (Some i)
        show ?thesis
        proof (cases "snd st")
          case Nil
          with no_start stop Some assms show ?thesis
            by (simp add: compileLine_def)
        next
          case (Cons frame stack')
          with no_start stop Some assms
          have st': "st' = emit (expand frame) (fst st, stack')"
            by (simp add: compileLine_def split: if_splits)
          from Cons assms(2)
          have "list_all plain (expand frame)" "frames_plain (fst st, stack')"
            by (simp_all add: frames_plain_def plain_expand)
          with st' show ?thesis by (simp add: frames_plain_emit)
        qed
      qed
    qed
  qed
qed

lemma compileLines_frames_plain:
  "compileLines raw st = Inr st' \<Longrightarrow> frames_plain st \<Longrightarrow> frames_plain st'"
proof (induction raw arbitrary: st)
  case Nil
  then show ?case by simp
next
  case (Cons line raw)
  then show ?case
    by (auto split: sum.splits dest: compileLine_frames_plain)
qed

text \<open>
  C10.  When \<^verbatim>\<open>compileSequence\<close> succeeds, no element of the list it returns matches the
  loop-start pattern or the loop-end pattern.
\<close>

theorem C10_no_markers_left:
  "compileSequence raw = Inr out \<Longrightarrow>
     \<forall>x \<in> set out. match_loop_start x = None \<and> match_loop_end x = None"
proof -
  assume ok: "compileSequence raw = Inr out"
  then obtain stack where run: "compileLines raw ([], []) = Inr (out, stack)"
    by (auto simp: compileSequence_def split: sum.splits prod.splits if_splits)
  have "frames_plain ([], [])" by (simp add: frames_plain_def)
  with run have "frames_plain (out, stack)" by (rule compileLines_frames_plain)
  then show ?thesis by (simp add: frames_plain_def list_all_iff plain_def)
qed

theorem C10_no_markers_left_witness:
  "compileSequence [''loop7_2'', ''weighing_open'', ''loop7_end'', ''finished'']
      = Inr [''weighing_open'', ''weighing_open'', ''finished'']
   \<and> match_loop_start ''weighing_open'' = None \<and> match_loop_end ''weighing_open'' = None
   \<and> match_loop_start ''finished'' = None \<and> match_loop_end ''finished'' = None"
proof -
  have run: "compileSequence [''loop7_2'', ''weighing_open'', ''loop7_end'', ''finished'']
      = Inr [''weighing_open'', ''weighing_open'', ''finished'']"
    by code_simp
  from C10_no_markers_left [OF run] run show ?thesis by simp
qed

subsection \<open>When the compiler fails\<close>

lemma compileLine_overflow:
  "\<not> fits_int (classify line) \<Longrightarrow> compileLine st line = Inl StoiOutOfRange"
  by (auto simp: classify_def compileLine_def parseLoopStart_def parseLoopEnd_def stoi_def
           split: option.splits prod.splits)

text \<open>
  One round of the loop does to the ids of the open frames what the structural rule of
  its token says, whatever the blocks hold.
\<close>

lemma compileLine_step:
  assumes "fits_int (classify line)"
  shows "structural_step (classify line) (open_ids st) = map_sum id open_ids (compileLine st line)"
proof (cases "match_loop_start line")
  case (Some p)
  with assms show ?thesis
    by (cases p) (auto simp: classify_def compileLine_def parseLoopStart_def stoi_def open_ids_def)
next
  case None
  note no_start = None
  show ?thesis
  proof (cases "match_loop_end line")
    case None
    with no_start show ?thesis
      by (simp add: classify_def compileLine_def parseLoopStart_def parseLoopEnd_def open_ids_emit)
  next
    case (Some g)
    show ?thesis
    proof (cases "snd st")
      case Nil
      with no_start Some assms show ?thesis
        by (simp add: classify_def compileLine_def parseLoopStart_def parseLoopEnd_def stoi_def
            open_ids_def)
    next
      case (Cons frame stack')
      have "open_ids (emit (expand frame) (fst st, stack')) = map idF stack'"
        by (simp add: open_ids_emit) (simp add: open_ids_def)
      with Cons no_start Some assms show ?thesis
        by (simp add: classify_def compileLine_def parseLoopStart_def parseLoopEnd_def stoi_def
            open_ids_def)
    qed
  qed
qed

lemma compileLines_scan:
  "failure_scan (map classify raw) (open_ids st) = map_sum id open_ids (compileLines raw st)"
proof (induction raw arbitrary: st)
  case Nil
  show ?case by simp
next
  case (Cons line raw)
  show ?case
  proof (cases "fits_int (classify line)")
    case False
    then show ?thesis by (simp add: compileLine_overflow)
  next
    case True
    from compileLine_step[OF True, of st] Cons.IH True show ?thesis
      by (cases "compileLine st line") auto
  qed
qed

lemma compileSequence_failure:
  "(compileSequence raw = Inl e) = (compile_failure (map classify raw) = Some e)"
proof -
  have s: "failure_scan (map classify raw) [] = map_sum id open_ids (compileLines raw ([], []))"
    using compileLines_scan[of raw "([], [])"] by (simp add: open_ids_def)
  show ?thesis
  proof (cases "compileLines raw ([], [])")
    case (Inl e')
    with s show ?thesis by (auto simp: compileSequence_def compile_failure_def)
  next
    case (Inr st')
    with s have "failure_scan (map classify raw) [] = Inr (open_ids st')" by simp
    with Inr show ?thesis
      by (cases st') (auto simp: compileSequence_def compile_failure_def open_ids_def)
  qed
qed

lemma failure_scan_fits:
  "list_all fits_int ts \<Longrightarrow> failure_scan ts ids = structural_scan ts ids"
  by (induction ts arbitrary: ids) (simp_all split: sum.splits)

text \<open>The four rejections the specification lists.\<close>

lemma rejections:
  "compileSequence [''loop1_0'', ''a'', ''loop1_end''] = Inl InvalidRepeat"
  "compileSequence [''loop1_end''] = Inl UnmatchedLoopEnd"
  "compileSequence [''loop1_3'', ''a'', ''loop2_end''] = Inl LoopIdMismatch"
  "compileSequence [''loop1_3'', ''a''] = Inl UnclosedLoop"
  by code_simp+

text \<open>
  C6, with the limit of \<^verbatim>\<open>int\<close>.  \<^verbatim>\<open>compileSequence\<close> fails with error \<open>e\<close> if and only if
  \<open>e\<close> is the first of these in the input: a loop marker whose id or repeat count is above
  \<open>INT_MAX\<close> (\<open>StoiOutOfRange\<close>), a loop start with repeat count 0 (\<open>InvalidRepeat\<close>), a loop
  end with no frame on the stack (\<open>UnmatchedLoopEnd\<close>), a loop end whose id differs from
  the popped frame's (\<open>LoopIdMismatch\<close>), or a frame left on the stack at the end of the
  input (\<open>UnclosedLoop\<close>).  On an input whose markers all fit an \<^verbatim>\<open>int\<close>, it fails if and
  only if the input has one of the four structural errors, with that error.  A failure is
  a result \<open>Inl e\<close>: it carries no output.
\<close>

theorem C6_compile_failure:
  "(compileSequence raw = Inl e) = (compile_failure (map classify raw) = Some e)
   \<and> ((\<forall>line \<in> set raw. fits_int (classify line)) \<longrightarrow>
        (compileSequence raw = Inl e) = (structural_error (map classify raw) = Some e))"
proof -
  have "compile_failure (map classify raw) = structural_error (map classify raw)"
    if "\<forall>line \<in> set raw. fits_int (classify line)"
  proof -
    from that have "list_all fits_int (map classify raw)"
      by (simp add: list_all_iff)
    then show ?thesis
      by (simp add: compile_failure_def structural_error_def failure_scan_fits)
  qed
  then show ?thesis by (simp add: compileSequence_failure)
qed

theorem C6_compile_failure_witness:
  "list_all (\<lambda>line. fits_int (classify line)) [''loop1_3'', ''a'', ''loop2_end'']
   \<and> structural_error (map classify [''loop1_3'', ''a'', ''loop2_end'']) = Some LoopIdMismatch
   \<and> compile_failure (map classify [''loop1_3'', ''a'', ''loop2_end'']) = Some LoopIdMismatch
   \<and> compileSequence [''loop1_3'', ''a'', ''loop2_end''] = Inl LoopIdMismatch"
proof -
  have f: "list_all (\<lambda>line. fits_int (classify line)) [''loop1_3'', ''a'', ''loop2_end'']"
    by code_simp
  have s: "structural_error (map classify [''loop1_3'', ''a'', ''loop2_end'']) = Some LoopIdMismatch"
    by code_simp
  from f have b: "\<forall>line \<in> set [''loop1_3'', ''a'', ''loop2_end'']. fits_int (classify line)"
    by (simp only: list_all_iff)
  from C6_compile_failure[of "[''loop1_3'', ''a'', ''loop2_end'']" LoopIdMismatch] b s f
  show ?thesis by blast
qed

text \<open>
  The lines \<^verbatim>\<open>loop1_99999999999, x, loop1_end\<close> have none of the four structural errors,
  and \<^verbatim>\<open>compileSequence\<close> fails on them.
\<close>

theorem C6_counterexample:
  "compileSequence [''loop1_99999999999'', ''x'', ''loop1_end''] = Inl StoiOutOfRange
   \<and> structural_error (map classify [''loop1_99999999999'', ''x'', ''loop1_end'']) = None"
  by code_simp

section \<open>Properties of the sequencer\<close>

subsection \<open>Installing the sequence\<close>

text \<open>
  C1.  The claim is that construction installs the built-in fallback sequence when the
  file cannot be opened.  The code assigns the fallback to the local \<^verbatim>\<open>raw\<close> and returns
  before \<^verbatim>\<open>compileSequence\<close> and the \<^verbatim>\<open>finished\<close> guarantee are reached: on that path the
  sequence of the freshly constructed controller is still empty, and the sequence counts
  as completed.
\<close>

theorem C1_load_failure_leaves_sequence_empty:
  "sequence (initializeSequences None (constructed ops dm0 command)) = []
   \<and> isSequenceCompleted (initializeSequences None (constructed ops dm0 command))"
  by (simp add: initializeSequences_def constructed_def isSequenceCompleted_def)

text \<open>
  C7.  When the file was opened, the installed sequence is not empty and ends with
  \<^verbatim>\<open>finished\<close>: it is the compiled output, with \<^verbatim>\<open>finished\<close> appended unless the output
  already ends with it, and it is the one-element list \<^verbatim>\<open>finished\<close> when \<^verbatim>\<open>compileSequence\<close>
  throws.
\<close>

theorem C7_sentinel_after_compilation:
  "sequence (initializeSequences (Some file_lines) s) \<noteq> []
   \<and> last (sequence (initializeSequences (Some file_lines) s)) = ''finished''
   \<and> sequence (initializeSequences (Some file_lines) s)
       = (case compileSequence (readLines file_lines []) of
            Inl e \<Rightarrow> [''finished'']
          | Inr out \<Rightarrow>
              if out = [] then [''finished'']
              else if last out = ''finished'' then out
              else out @ [''finished''])"
  by (simp add: initializeSequences_def guarantee_finished_def compile_into_def
      split: sum.splits)

text \<open>
  A file with a comment, an empty line and a loop; a file that does not compile; a file
  that already ends with \<^verbatim>\<open>finished\<close>.
\<close>

theorem C7_sentinel_after_compilation_witness:
  "sequence (initializeSequences (Some [''# demo'', ''loop1_2'', [], ''a'', ''loop1_end''])
      (constructed (recording_manager True) [] ''init'')) = [''a'', ''a'', ''finished'']
   \<and> sequence (initializeSequences (Some [''a'', ''loop1_end''])
      (constructed (recording_manager True) [] ''init'')) = [''finished'']
   \<and> sequence (initializeSequences (Some [''a'', ''finished''])
      (constructed (recording_manager True) [] ''init'')) = [''a'', ''finished'']"
proof -
  have 1: "compileSequence (readLines [''# demo'', ''loop1_2'', [], ''a'', ''loop1_end''] [])
      = Inr [''a'', ''a'']" by code_simp
  have 2: "compileSequence (readLines [''a'', ''loop1_end''] []) = Inl UnmatchedLoopEnd"
    by code_simp
  have 3: "compileSequence (readLines [''a'', ''finished''] []) = Inr [''a'', ''finished'']"
    by code_simp
  from C7_sentinel_after_compilation[of "[''# demo'', ''loop1_2'', [], ''a'', ''loop1_end'']"
      "constructed (recording_manager True) [] ''init''"]
    C7_sentinel_after_compilation[of "[''a'', ''loop1_end'']"
      "constructed (recording_manager True) [] ''init''"]
    C7_sentinel_after_compilation[of "[''a'', ''finished'']"
      "constructed (recording_manager True) [] ''init''"]
    1 2 3
  show ?thesis by simp
qed

subsection \<open>The branch that sends the current step again\<close>

lemma dispatch_fields [simp]:
  "current_step (dispatch ops s) = current_step s"
  "step_index (dispatch ops s) = step_index s"
  "sequence (dispatch ops s) = sequence s"
  by (simp_all add: dispatch_def)

lemma moveToNextStep_redispatch:
  "redispatch s \<Longrightarrow> moveToNextStep ops s = Some (dispatch ops s)"
  by (simp add: moveToNextStep_def redispatch_def)

lemma redispatch_dispatch: "redispatch (dispatch ops s) = redispatch s"
  by (simp add: redispatch_def)

lemma moves_redispatch:
  "redispatch s \<Longrightarrow>
     moves ops n s
       = Some (s\<lparr>devices_manager := dispatches ops (current_step s) n (devices_manager s)\<rparr>)"
proof (induction n arbitrary: s)
  case 0
  show ?case by simp
next
  case (Suc n)
  from Suc.prems have r: "redispatch (dispatch ops s)" by (simp add: redispatch_dispatch)
  from Suc.prems have "moves ops (Suc n) s = moves ops n (dispatch ops s)"
    by (simp add: moveToNextStep_redispatch)
  also have "\<dots> = Some ((dispatch ops s)\<lparr>devices_manager :=
      dispatches ops (current_step (dispatch ops s)) n (devices_manager (dispatch ops s))\<rparr>)"
    using r by (rule Suc.IH)
  also have "\<dots> = Some (s\<lparr>devices_manager :=
      dispatches ops (current_step s) (Suc n) (devices_manager s)\<rparr>)"
    by (simp add: dispatch_def)
  finally show ?case .
qed

text \<open>
  C2, as the code has it.  In every state with step index 0 and a current step other than
  \<^verbatim>\<open>init\<close>, \<^verbatim>\<open>moveToNextStep\<close> sends the current step (the command given to the
  constructor) to the device manager and returns with the step index, the current step
  and the sequence unchanged.  The state it leaves satisfies the same condition, so every
  later call does the same: after \<open>n\<close> calls the command was sent \<open>n\<close> times, the step
  index is still 0 and no element of the sequence was consumed.
\<close>

theorem C2_redispatch_never_advances:
  assumes "step_index s = 0" and "current_step s \<noteq> ''init''"
  shows "moveToNextStep ops s
           = Some (s\<lparr>devices_manager :=
                      snd (updateDeviceStatuses ops (current_step s) (devices_manager s))\<rparr>)
       \<and> moves ops n s
           = Some (s\<lparr>devices_manager := dispatches ops (current_step s) n (devices_manager s)\<rparr>)"
proof -
  from assms have r: "redispatch s" by (simp add: redispatch_def)
  from r have "moveToNextStep ops s = Some (dispatch ops s)" by (rule moveToNextStep_redispatch)
  with moves_redispatch[OF r] show ?thesis by (simp add: dispatch_def)
qed

theorem C2_redispatch_never_advances_witness:
  "moves (recording_manager True) 3
     \<lparr>current_step = ''start'', step_index = 0, sequence = [''a'', ''finished''],
      devices_manager = []\<rparr>
   = Some \<lparr>current_step = ''start'', step_index = 0, sequence = [''a'', ''finished''],
           devices_manager = [''start'', ''start'', ''start'']\<rparr>"
proof -
  let ?s = "\<lparr>current_step = ''start'', step_index = 0, sequence = [''a'', ''finished''],
             devices_manager = ([] :: string list)\<rparr>"
  have d: "dispatches (recording_manager True) ''start'' 3 [] = [''start'', ''start'', ''start'']"
    by (simp add: numeral_3_eq_3 updateDeviceStatuses_def recording_manager_def)
  have "step_index ?s = 0" "current_step ?s \<noteq> ''init''" by simp_all
  from C2_redispatch_never_advances[OF this, of "recording_manager True" 3] d
  show ?thesis by simp
qed

text \<open>
  Two calls on a controller constructed with the command \<^verbatim>\<open>start\<close>: the second call sends
  \<^verbatim>\<open>start\<close> again; it does not set the current step to the first element of the sequence
  and the step index stays 0.
\<close>

theorem C2_counterexample:
  "moves (recording_manager True) 2
     \<lparr>current_step = ''start'', step_index = 0, sequence = [''a'', ''finished''],
      devices_manager = []\<rparr>
   = Some \<lparr>current_step = ''start'', step_index = 0, sequence = [''a'', ''finished''],
           devices_manager = [''start'', ''start'']\<rparr>"
  by (simp add: numeral_2_eq_2 moveToNextStep_def dispatch_def updateDeviceStatuses_def
      recording_manager_def)

subsection \<open>The branch that advances\<close>

lemma moveToNextStep_advance:
  "\<not> redispatch s \<Longrightarrow> step_index s < length (sequence s) \<Longrightarrow>
     moveToNextStep ops s =
       Some ((dispatch ops (s\<lparr>current_step := sequence s ! step_index s\<rparr>))
               \<lparr>step_index := step_index s + 1\<rparr>)"
  by (auto simp: moveToNextStep_def redispatch_def Let_def)

lemma moveToNextStep_out_of_bounds:
  "\<not> redispatch s \<Longrightarrow> \<not> step_index s < length (sequence s) \<Longrightarrow> moveToNextStep ops s = None"
  by (auto simp: moveToNextStep_def redispatch_def)

lemma moveToNextStep_cursor:
  assumes "moveToNextStep ops s = Some s'" and "step_index s \<le> length (sequence s)"
  shows "sequence s' = sequence s \<and> step_index s \<le> step_index s'
         \<and> step_index s' \<le> length (sequence s')"
  using assms by (auto simp: moveToNextStep_def Let_def split: if_splits)

lemma moves_cursor:
  "moves ops n s = Some s' \<Longrightarrow> step_index s \<le> length (sequence s) \<Longrightarrow>
     sequence s' = sequence s \<and> step_index s \<le> step_index s'
       \<and> step_index s' \<le> length (sequence s')"
proof (induction n arbitrary: s)
  case 0
  then show ?case by simp
next
  case (Suc n)
  from Suc.prems(1) obtain s1
    where 1: "moveToNextStep ops s = Some s1" and 2: "moves ops n s1 = Some s'"
    by (auto split: option.splits)
  from moveToNextStep_cursor[OF 1 Suc.prems(2)] Suc.IH[OF 2] show ?case by auto
qed

text \<open>
  Outside the first branch, \<open>n\<close> calls all have a result exactly when the step index plus
  \<open>n\<close> does not pass the length of the sequence.
\<close>

lemma moves_advance:
  assumes "\<not> redispatch s" and "step_index s \<le> length (sequence s)"
  shows "(\<exists>s'. moves ops n s = Some s' \<and> step_index s' = step_index s + n)
           = (step_index s + n \<le> length (sequence s))"
    and "step_index s + n > length (sequence s) \<Longrightarrow> moves ops n s = None"
  using assms
proof (induction n arbitrary: s)
  case 0
  { case 1 then show ?case by simp }
  { case 2 then show ?case by simp }
next
  case (Suc n)
  { case 1
    show ?case
    proof (cases "step_index s < length (sequence s)")
      case False
      with 1 show ?thesis by (simp add: moveToNextStep_out_of_bounds)
    next
      case True
      let ?s1 = "(dispatch ops (s\<lparr>current_step := sequence s ! step_index s\<rparr>))
               \<lparr>step_index := step_index s + 1\<rparr>"
      have a: "\<not> redispatch ?s1" "step_index ?s1 \<le> length (sequence ?s1)"
        using True by (simp_all add: redispatch_def)
      from Suc.IH(1)[OF a] True 1 show ?thesis
        by (simp add: moveToNextStep_advance)
    qed }
  { case 2
    show ?case
    proof (cases "step_index s < length (sequence s)")
      case False
      with 2 show ?thesis by (simp add: moveToNextStep_out_of_bounds)
    next
      case True
      let ?s1 = "(dispatch ops (s\<lparr>current_step := sequence s ! step_index s\<rparr>))
               \<lparr>step_index := step_index s + 1\<rparr>"
      have a: "\<not> redispatch ?s1" "step_index ?s1 \<le> length (sequence ?s1)"
        using True by (simp_all add: redispatch_def)
      from 2 have "step_index ?s1 + n > length (sequence ?s1)" by simp
      from Suc.IH(2)[OF this a] True 2 show ?thesis
        by (simp add: moveToNextStep_advance)
    qed }
qed

lemma moves_from_init:
  assumes "step_index s = 0" and "current_step s = ''init''"
  shows "(\<exists>s'. moves ops k s = Some s') = (k \<le> length (sequence s))"
proof -
  from assms have a: "\<not> redispatch s" "step_index s \<le> length (sequence s)"
    by (simp_all add: redispatch_def)
  show ?thesis
  proof (cases "k \<le> length (sequence s)")
    case True
    with moves_advance(1)[OF a, of ops k] assms(1) show ?thesis by auto
  next
    case False
    with moves_advance(2)[OF a, where n = k and ops = ops] assms(1) show ?thesis by simp
  qed
qed

text \<open>
  C3, as the code has it.  Start from a state with step index 0.  Along calls of
  \<^verbatim>\<open>moveToNextStep\<close> that each have a result, the step index never decreases, never
  exceeds the length of the sequence, and the sequence stays the same.  The code has no
  guard of its own: the next call has no result (it reads \<^verbatim>\<open>sequence_\<close> out of bounds)
  exactly when the sequence is completed and the first branch does not apply; from a
  controller constructed with \<^verbatim>\<open>init\<close>, \<open>k\<close> calls all have a result exactly when \<open>k\<close> is at
  most the length of the sequence.
\<close>

theorem C3_cursor_bounded_while_defined:
  assumes "step_index s = 0"
    and "moves ops m s = Some s1" and "moves ops n s1 = Some s2"
  shows "step_index s1 \<le> step_index s2 \<and> step_index s2 \<le> length (sequence s)
         \<and> sequence s2 = sequence s
         \<and> (moveToNextStep ops s2 = None) = (isSequenceCompleted s2 \<and> \<not> redispatch s2)
         \<and> (current_step s = ''init'' \<longrightarrow>
              (\<exists>s'. moves ops k s = Some s') = (k \<le> length (sequence s)))"
proof -
  from assms(1) have b0: "step_index s \<le> length (sequence s)" by simp
  from moves_cursor[OF assms(2) b0]
  have 1: "sequence s1 = sequence s" "step_index s1 \<le> length (sequence s1)" by blast+
  from moves_cursor[OF assms(3) 1(2)] 1(1)
  have 2: "sequence s2 = sequence s" "step_index s1 \<le> step_index s2"
    "step_index s2 \<le> length (sequence s)" by auto
  have "(moveToNextStep ops s2 = None) = (isSequenceCompleted s2 \<and> \<not> redispatch s2)"
    by (auto simp: moveToNextStep_def isSequenceCompleted_def redispatch_def Let_def)
  with 2 moves_from_init[OF assms(1), of ops k] show ?thesis by simp
qed

theorem C3_cursor_bounded_while_defined_witness:
  "moves (recording_manager False) 1
     \<lparr>current_step = ''init'', step_index = 0, sequence = [''a'', ''finished''],
      devices_manager = []\<rparr>
     = Some \<lparr>current_step = ''a'', step_index = 1, sequence = [''a'', ''finished''],
             devices_manager = [''a'']\<rparr>
   \<and> moves (recording_manager False) 1
       \<lparr>current_step = ''a'', step_index = 1, sequence = [''a'', ''finished''],
        devices_manager = [''a'']\<rparr>
     = Some \<lparr>current_step = ''finished'', step_index = 2, sequence = [''a'', ''finished''],
             devices_manager = [''a'', ''finished'']\<rparr>
   \<and> moveToNextStep (recording_manager False)
       \<lparr>current_step = ''finished'', step_index = 2, sequence = [''a'', ''finished''],
        devices_manager = [''a'', ''finished'']\<rparr> = None
   \<and> (\<exists>s'. moves (recording_manager False) 2
       \<lparr>current_step = ''init'', step_index = 0, sequence = [''a'', ''finished''],
        devices_manager = []\<rparr> = Some s')"
proof -
  let ?s = "\<lparr>current_step = ''init'', step_index = 0, sequence = [''a'', ''finished''],
             devices_manager = ([] :: string list)\<rparr>"
  let ?s1 = "\<lparr>current_step = ''a'', step_index = 1, sequence = [''a'', ''finished''],
             devices_manager = [''a'']\<rparr>"
  let ?s2 = "\<lparr>current_step = ''finished'', step_index = 2, sequence = [''a'', ''finished''],
             devices_manager = [''a'', ''finished'']\<rparr>"
  have a: "step_index ?s = 0" by simp
  have b: "moves (recording_manager False) 1 ?s = Some ?s1"
    by (simp add: moveToNextStep_def dispatch_def updateDeviceStatuses_def recording_manager_def)
  have c: "moves (recording_manager False) 1 ?s1 = Some ?s2"
    by (simp add: moveToNextStep_def dispatch_def updateDeviceStatuses_def recording_manager_def)
  have d: "isSequenceCompleted ?s2 \<and> \<not> redispatch ?s2"
    by (simp add: isSequenceCompleted_def redispatch_def)
  have e: "current_step ?s = ''init''" "2 \<le> length (sequence ?s)" by simp_all
  from C3_cursor_bounded_while_defined[OF a b c, of 2] d b c e show ?thesis by blast
qed

text \<open>
  Two calls on a controller with the sequence \<^verbatim>\<open>finished\<close> and the command \<^verbatim>\<open>init\<close>: the
  second call reads the sequence at index 1, out of bounds; there is no state in which
  the step index is at most 1.
\<close>

theorem C3_counterexample:
  "moves (recording_manager True) 2
     \<lparr>current_step = ''init'', step_index = 0, sequence = [''finished''], devices_manager = []\<rparr>
   = None"
  by (simp add: numeral_2_eq_2 moveToNextStep_def dispatch_def updateDeviceStatuses_def
      recording_manager_def)

text \<open>
  C4.  In a state where the first branch does not apply (step index above 0, or current
  step \<^verbatim>\<open>init\<close>), \<^verbatim>\<open>moveToNextStep\<close> reads \<^verbatim>\<open>sequence_[step_index_]\<close> with no check: the call
  has a result only if the step index is below the length of the sequence.  So it has
  none when the sequence is empty, none when the sequence is already completed, and the
  constructor itself has none when the file cannot be opened and the command is \<^verbatim>\<open>init\<close>.
\<close>

theorem C4_unguarded_index:
  assumes "step_index s > 0 \<or> current_step s = ''init''"
  shows "(\<exists>s'. moveToNextStep ops s = Some s') = (step_index s < length (sequence s))
       \<and> (sequence s = [] \<longrightarrow> moveToNextStep ops s = None)
       \<and> (isSequenceCompleted s \<longrightarrow> moveToNextStep ops s = None)
       \<and> new_ProcessController ops dm0 None ''init'' = None"
proof -
  have "new_ProcessController ops dm0 None ''init'' = None"
    by (simp add: new_ProcessController_def initializeSequences_def constructed_def
        moveToNextStep_def)
  with assms show ?thesis
    by (auto simp: moveToNextStep_def isSequenceCompleted_def Let_def)
qed

theorem C4_unguarded_index_witness:
  "moveToNextStep (recording_manager True)
     (initializeSequences None (constructed (recording_manager True) [] ''init'')) = None
   \<and> new_ProcessController (recording_manager True) [] None ''init'' = None
   \<and> moveToNextStep (recording_manager True)
       \<lparr>current_step = ''finished'', step_index = 1, sequence = [''finished''],
        devices_manager = [''finished'']\<rparr> = None
   \<and> (\<exists>s'. moveToNextStep (recording_manager True)
       \<lparr>current_step = ''init'', step_index = 0, sequence = [''finished''],
        devices_manager = []\<rparr> = Some s')"
proof -
  let ?ops = "recording_manager True"
  let ?s0 = "initializeSequences None (constructed ?ops [] ''init'')"
  let ?s1 = "\<lparr>current_step = ''finished'', step_index = 1, sequence = [''finished''],
        devices_manager = [''finished'']\<rparr>"
  let ?s2 = "\<lparr>current_step = ''init'', step_index = 0, sequence = [''finished''],
        devices_manager = ([] :: string list)\<rparr>"
  have a: "step_index ?s0 > 0 \<or> current_step ?s0 = ''init''" "sequence ?s0 = []"
    by (simp_all add: initializeSequences_def constructed_def)
  have b: "step_index ?s1 > 0 \<or> current_step ?s1 = ''init''" "isSequenceCompleted ?s1"
    by (simp_all add: isSequenceCompleted_def)
  have c: "step_index ?s2 > 0 \<or> current_step ?s2 = ''init''"
    "step_index ?s2 < length (sequence ?s2)"
    by simp_all
  from C4_unguarded_index[OF a(1), of ?ops "[]"] a(2)
  have 1: "moveToNextStep ?ops ?s0 = None" "new_ProcessController ?ops [] None ''init'' = None"
    by blast+
  from C4_unguarded_index[OF b(1), of ?ops] b(2)
  have 2: "moveToNextStep ?ops ?s1 = None" by blast
  from C4_unguarded_index[OF c(1), of ?ops] c(2)
  have 3: "\<exists>s'. moveToNextStep ?ops ?s2 = Some s'" by blast
  from 1 2 3 show ?thesis by simp
qed

text \<open>
  C9.  In the branch that advances, the step index goes up by one and the current step
  becomes the element read, whatever \<^verbatim>\<open>updateDeviceStatus\<close> returns: the message of
  \<^verbatim>\<open>updateDeviceStatuses\<close> is dropped, and only the device manager's own state depends on
  the update.  This holds for every device manager \<open>ops\<close>.
\<close>

theorem C9_failed_update_does_not_block:
  assumes "step_index s > 0 \<or> current_step s = ''init''"
    and "step_index s < length (sequence s)"
  shows "\<exists>s'. moveToNextStep ops s = Some s'
           \<and> step_index s' = step_index s + 1
           \<and> current_step s' = sequence s ! step_index s
           \<and> sequence s' = sequence s
           \<and> devices_manager s'
               = snd (updateDeviceStatuses ops (sequence s ! step_index s) (devices_manager s))"
  using assms by (auto simp: moveToNextStep_def dispatch_def Let_def)

text \<open>
  The same call with a device manager whose update fails and with one whose update
  succeeds: the messages differ, the controller after the call is the same.
\<close>

theorem C9_failed_update_does_not_block_witness:
  "fst (updateDeviceStatuses (recording_manager False) ''a'' []) = ''update device status error''
   \<and> fst (updateDeviceStatuses (recording_manager True) ''a'' []) = ''update device status success''
   \<and> moveToNextStep (recording_manager False)
       \<lparr>current_step = ''init'', step_index = 0, sequence = [''a'', ''finished''],
        devices_manager = []\<rparr>
     = Some \<lparr>current_step = ''a'', step_index = 1, sequence = [''a'', ''finished''],
             devices_manager = [''a'']\<rparr>
   \<and> moveToNextStep (recording_manager True)
       \<lparr>current_step = ''init'', step_index = 0, sequence = [''a'', ''finished''],
        devices_manager = []\<rparr>
     = Some \<lparr>current_step = ''a'', step_index = 1, sequence = [''a'', ''finished''],
             devices_manager = [''a'']\<rparr>"
proof -
  let ?s = "\<lparr>current_step = ''init'', step_index = 0, sequence = [''a'', ''finished''],
             devices_manager = ([] :: string list)\<rparr>"
  let ?s' = "\<lparr>current_step = ''a'', step_index = 1, sequence = [''a'', ''finished''],
             devices_manager = [''a'']\<rparr>"
  have a: "step_index ?s > 0 \<or> current_step ?s = ''init''"
    "step_index ?s < length (sequence ?s)"
    by simp_all
  have m: "fst (updateDeviceStatuses (recording_manager False) ''a'' [])
             = ''update device status error''"
    "fst (updateDeviceStatuses (recording_manager True) ''a'' [])
             = ''update device status success''"
    by (simp_all add: updateDeviceStatuses_def recording_manager_def)
  have d: "snd (updateDeviceStatuses (recording_manager ok) ''a'' []) = [''a'']" for ok
    by (simp add: updateDeviceStatuses_def recording_manager_def)
  from C9_failed_update_does_not_block[OF a, of "recording_manager False"]
  obtain s' where f: "moveToNextStep (recording_manager False) ?s = Some s'"
    "step_index s' = 1" "current_step s' = ''a''" "sequence s' = [''a'', ''finished'']"
    "devices_manager s' = [''a'']"
    by (auto simp: d)
  from C9_failed_update_does_not_block[OF a, of "recording_manager True"]
  obtain t' where t: "moveToNextStep (recording_manager True) ?s = Some t'"
    "step_index t' = 1" "current_step t' = ''a''" "sequence t' = [''a'', ''finished'']"
    "devices_manager t' = [''a'']"
    by (auto simp: d)
  from f have "s' = ?s'" by (cases s') simp
  moreover from t have "t' = ?s'" by (cases t') simp
  ultimately show ?thesis using f(1) t(1) m by simp
qed

end
